theory Spec2Isabelle
  imports Main
begin

text \<open>
  A scanner for the obsolete ABAP statement \<open>DESCRIBE TABLE ... LINES ...\<close>
  (\<open>app/main.py\<close>): a regular expression finds the statements in the text of a code unit,
  and for each match a finding with its line, a message, a suggestion and a snippet is
  built; the endpoint returns the units that have findings. The theory follows the
  source: the strings and the matching of Python first, then the functions of the
  program, then their properties.
\<close>

section \<open>Python strings\<close>

text \<open>
  A Python \<open>str\<close> is a sequence of Unicode code points; \<open>len\<close>, slicing, \<open>count\<close> and the
  offsets of \<open>re\<close> all count code points. A string is therefore a list of code points
  (natural numbers), and \<open>py\<close> reads an ASCII literal as such a list. The source holds
  one character outside ASCII, the ellipsis U+2026 of the \<open>note\<close> text, written \<open>8230\<close>.
\<close>

type_synonym pystr = "nat list"

definition py :: "string \<Rightarrow> pystr" where
  "py s = map of_char s"

text \<open>
  Slice indices as Python adjusts them: a negative index counts from the end, and both
  ends are clamped to the string. \<open>xs[i:j]\<close> is \<open>py_slice xs i j\<close>.
\<close>

definition slice_index :: "nat \<Rightarrow> int \<Rightarrow> nat" where
  "slice_index n i =
     (if i < 0 then (if i + int n < 0 then 0 else nat (i + int n))
      else if int n < i then n else nat i)"

definition py_slice :: "'a list \<Rightarrow> int \<Rightarrow> int \<Rightarrow> 'a list" where
  "py_slice xs i j =
     (let a = slice_index (length xs) i; b = slice_index (length xs) j
      in take (b - a) (drop a xs))"

text \<open>\<open>text.count(c, i, j)\<close> for a one-character needle \<open>c\<close>.\<close>

definition py_count :: "pystr \<Rightarrow> nat \<Rightarrow> int \<Rightarrow> int \<Rightarrow> int" where
  "py_count xs c i j = int (length (filter (\<lambda>x. x = c) (py_slice xs i j)))"

text \<open>\<open>text.replace(c, new)\<close> for a one-character needle \<open>c\<close>.\<close>

definition py_replace :: "pystr \<Rightarrow> nat \<Rightarrow> pystr \<Rightarrow> pystr" where
  "py_replace xs c new = concat (map (\<lambda>x. if x = c then new else [x]) xs)"

section \<open>Character classes of the \<open>re\<close> module\<close>

text \<open>
  For a \<open>str\<close> pattern \<open>\s\<close> is \<open>Py_UNICODE_ISSPACE\<close>, the same test \<open>str.strip()\<close> uses:
  the ASCII controls 9 to 13 and 28 to 31, the space, and the Unicode separators.
\<close>

definition is_space :: "nat \<Rightarrow> bool" where
  "is_space c \<longleftrightarrow>
     (9 \<le> c \<and> c \<le> 13) \<or> (28 \<le> c \<and> c \<le> 32) \<or> c = 133 \<or> c = 160 \<or> c = 5760 \<or>
     (8192 \<le> c \<and> c \<le> 8202) \<or> c = 8232 \<or> c = 8233 \<or> c = 8239 \<or> c = 8287 \<or> c = 12288"

text \<open>
  \<open>\w\<close> is \<open>Py_UNICODE_ISALNUM(c) || c == '_'\<close>. On ASCII the alphanumerics are the digits
  and the letters; beyond ASCII they are given by the Unicode character database of the
  Python runtime, which is no part of this repository: it is the parameter \<open>ucd\<close> of the
  model, and every theorem below holds for every such table.
\<close>

type_synonym unicode_db = "nat \<Rightarrow> bool"

definition is_alnum :: "unicode_db \<Rightarrow> nat \<Rightarrow> bool" where
  "is_alnum ucd c \<longleftrightarrow>
     (if c < 128 then (48 \<le> c \<and> c \<le> 57) \<or> (65 \<le> c \<and> c \<le> 90) \<or> (97 \<le> c \<and> c \<le> 122)
      else ucd c)"

definition is_word :: "unicode_db \<Rightarrow> nat \<Rightarrow> bool" where
  "is_word ucd c \<longleftrightarrow> is_alnum ucd c \<or> c = 95"

text \<open>
  A letter of the pattern under \<open>re.IGNORECASE\<close>: the compiler stores the lower-case
  letter \<open>lo\<close>, and a character of the text matches when its simple lower-case mapping is
  \<open>lo\<close> or a case-fold equivalent of it. For an ASCII letter these are the letter itself,
  its upper-case form, and the four characters the \<open>re\<close> documentation lists: U+0130 and
  U+0131 for \<open>i\<close>, U+017F for \<open>s\<close>, U+212A for \<open>k\<close>.
\<close>

definition literal_ignore :: "nat \<Rightarrow> nat \<Rightarrow> bool" where
  "literal_ignore lo c \<longleftrightarrow>
     c = lo \<or> (97 \<le> lo \<and> lo \<le> 122 \<and> c + 32 = lo) \<or>
     (lo = 105 \<and> (c = 304 \<or> c = 305)) \<or> (lo = 115 \<and> c = 383) \<or> (lo = 107 \<and> c = 8490)"

section \<open>The compiled pattern\<close>

text \<open>
  \<open>DESCRIBE_TABLE_RE\<close> is compiled with \<open>re.IGNORECASE | re.VERBOSE\<close>: white space and
  comments of the pattern text are dropped, which leaves
  \<^verbatim>\<open>DESCRIBE\s+TABLE\s+(?P<table>\w+)\s+LINES\s+(?P<target>\w+)\<close>.
  The compiled form is a sequence of operations: a case-insensitive literal, a greedy
  repetition (one or more) of a character category, and a mark that records the current
  position (group \<open>table\<close> is marks 0 and 1, group \<open>target\<close> is marks 2 and 3).
\<close>

datatype category = Category_space | Category_word

datatype opcode = Literal_ignore nat | Max_repeat category | Mark nat

definition literals :: "string \<Rightarrow> opcode list" where
  "literals s = map Literal_ignore (py s)"

definition DESCRIBE_TABLE_RE :: "opcode list" where
  "DESCRIBE_TABLE_RE =
     literals ''describe'' @ [Max_repeat Category_space] @
     literals ''table'' @ [Max_repeat Category_space] @
     [Mark 0, Max_repeat Category_word, Mark 1] @ [Max_repeat Category_space] @
     literals ''lines'' @ [Max_repeat Category_space] @
     [Mark 2, Max_repeat Category_word, Mark 3]"

section \<open>The matching engine\<close>

fun in_category :: "unicode_db \<Rightarrow> category \<Rightarrow> nat \<Rightarrow> bool" where
  "in_category ucd Category_space c = is_space c"
| "in_category ucd Category_word c = is_word ucd c"

text \<open>
  \<open>sre_match ucd ops s pos mk\<close> matches the operations \<open>ops\<close> against the rest \<open>s\<close> of the
  text, which starts at offset \<open>pos\<close>, with the marks \<open>mk\<close> set so far. It returns the end
  offset and the marks, or \<open>None\<close>. A repetition first takes the longest run of its
  category and, when the rest of the pattern fails there, gives the characters back one
  at a time (\<open>max_until\<close>), down to one.
\<close>

fun sre_match :: "unicode_db \<Rightarrow> opcode list \<Rightarrow> pystr \<Rightarrow> nat \<Rightarrow> nat list \<Rightarrow> (nat \<times> nat list) option"
  and max_until :: "unicode_db \<Rightarrow> opcode list \<Rightarrow> pystr \<Rightarrow> nat \<Rightarrow> nat list \<Rightarrow> nat \<Rightarrow> (nat \<times> nat list) option"
where
  "sre_match ucd [] s pos mk = Some (pos, mk)"
| "sre_match ucd (Literal_ignore lo # ops) s pos mk =
     (case s of
        [] \<Rightarrow> None
      | c # s' \<Rightarrow> if literal_ignore lo c then sre_match ucd ops s' (Suc pos) mk else None)"
| "sre_match ucd (Mark k # ops) s pos mk = sre_match ucd ops s pos (mk[k := pos])"
| "sre_match ucd (Max_repeat cat # ops) s pos mk =
     max_until ucd ops s pos mk (length (takeWhile (in_category ucd cat) s))"
| "max_until ucd ops s pos mk 0 = None"
| "max_until ucd ops s pos mk (Suc n) =
     (case sre_match ucd ops (drop (Suc n) s) (pos + Suc n) mk of
        Some r \<Rightarrow> Some r
      | None \<Rightarrow> max_until ucd ops s pos mk n)"

text \<open>
  A match object: the text it was found in, its span and its marks. \<open>m.group(0)\<close> is the
  text of the span, the named groups are the text between their marks.
\<close>

record py_match =
  m_string :: pystr
  m_start :: nat
  m_end :: nat
  m_marks :: "nat list"

definition substring :: "pystr \<Rightarrow> nat \<Rightarrow> nat \<Rightarrow> pystr" where
  "substring s a b = take (b - a) (drop a s)"

definition group0 :: "py_match \<Rightarrow> pystr" where
  "group0 m = substring (m_string m) (m_start m) (m_end m)"

definition group_table :: "py_match \<Rightarrow> pystr" where
  "group_table m = substring (m_string m) (m_marks m ! 0) (m_marks m ! 1)"

definition group_target :: "py_match \<Rightarrow> pystr" where
  "group_target m = substring (m_string m) (m_marks m ! 2) (m_marks m ! 3)"

text \<open>
  \<open>finditer\<close>: the pattern is tried at each offset from left to right; after a match the
  search goes on at the end of the match. (After an empty match, which the pattern of
  this program cannot produce, the search moves on by one character.)
\<close>

function finditer_from :: "unicode_db \<Rightarrow> opcode list \<Rightarrow> pystr \<Rightarrow> nat \<Rightarrow> py_match list" where
  "finditer_from ucd re s pos =
     (if length s < pos then []
      else (case sre_match ucd re (drop pos s) pos [0, 0, 0, 0] of
              None \<Rightarrow> finditer_from ucd re s (Suc pos)
            | Some (e, mk) \<Rightarrow>
                \<lparr>m_string = s, m_start = pos, m_end = e, m_marks = mk\<rparr> #
                finditer_from ucd re s (if pos < e then e else Suc pos)))"
  by pat_completeness auto
termination
  by (relation "measure (\<lambda>(ucd, re, s, pos). Suc (length s) - pos)") auto

definition finditer :: "unicode_db \<Rightarrow> opcode list \<Rightarrow> pystr \<Rightarrow> py_match list" where
  "finditer ucd re s = finditer_from ucd re s 0"

section \<open>Utility functions\<close>

definition line_of_offset :: "pystr \<Rightarrow> int \<Rightarrow> int" where
  "line_of_offset s off = py_count s 10 0 off + 1"

definition snippet_at :: "pystr \<Rightarrow> int \<Rightarrow> int \<Rightarrow> pystr" where
  "snippet_at s start end' =
     (let a = max 0 (start - 60); e = min (int (length s)) (end' + 60)
      in py_replace (py_slice s a e) 10 [92, 110])"

definition make_generic_suggestion :: "pystr \<Rightarrow> pystr \<Rightarrow> pystr" where
  "make_generic_suggestion table target =
     py ''Replace obsolete 'DESCRIBE TABLE '' @ table @ py '' LINES '' @ target @ [39] @
     py '' with modern expression 'DATA('' @ target @ py '') = LINES( '' @ table @ py '' ).' '' @
     py ''This uses the S/4HANA-compatible LINES() function.''"

definition strip :: "pystr \<Rightarrow> pystr" where
  "strip s = rev (dropWhile is_space (rev (dropWhile is_space s)))"

section \<open>Models\<close>

text \<open>
  The request models. A value of type \<open>Any\<close> (the values of a finding's \<open>meta\<close> in a
  request) is a JSON value; the scanner never looks at one. (Numbers with a fraction are
  left out.)
\<close>

datatype py_any =
  Any_none
| Any_bool bool
| Any_int int
| Any_str pystr
| Any_list "py_any list"
| Any_dict "(pystr \<times> py_any) list"

record Finding =
  fm_pgm_name :: "pystr option"
  fm_inc_name :: "pystr option"
  fm_type :: "pystr option"
  fm_name :: "pystr option"
  fm_start_line :: "int option"
  fm_end_line :: "int option"
  fm_issue_type :: "pystr option"
  fm_severity :: "pystr option"
  fm_line :: "int option"
  fm_message :: "pystr option"
  fm_suggestion :: "pystr option"
  fm_snippet :: "pystr option"
  fm_meta :: "(pystr \<times> py_any) list option"

record Unit =
  pgm_name :: pystr
  inc_name :: pystr
  type :: pystr
  name :: "pystr option"
  start_line :: "int option"
  end_line :: "int option"
  code :: "pystr option"
  describe_findings :: "Finding list option"

text \<open>
  The dictionaries \<open>scan_unit\<close> builds: a finding (its \<open>meta\<close> is a dictionary of strings,
  kept as an association list in insertion order), and the dump of the unit with the
  findings stored under \<open>describe_findings\<close>.
\<close>

record finding_dict =
  f_pgm_name :: pystr
  f_inc_name :: pystr
  f_type :: pystr
  f_name :: "pystr option"
  f_start_line :: "int option"
  f_end_line :: "int option"
  f_issue_type :: pystr
  f_severity :: pystr
  f_line :: int
  f_message :: pystr
  f_suggestion :: pystr
  f_snippet :: pystr
  f_meta :: "(pystr \<times> pystr) list"

record scan_result =
  r_pgm_name :: pystr
  r_inc_name :: pystr
  r_type :: pystr
  r_name :: "pystr option"
  r_start_line :: "int option"
  r_end_line :: "int option"
  r_code :: "pystr option"
  r_describe_findings :: "finding_dict list"

section \<open>Core scan logic\<close>

text \<open>The body of the loop of \<open>scan_unit\<close>: the finding of one match \<open>m\<close> in \<open>src\<close>.\<close>

definition make_finding :: "Unit \<Rightarrow> pystr \<Rightarrow> py_match \<Rightarrow> finding_dict" where
  "make_finding unit src m =
     (let table = group_table m; target = group_target m; stmt_text = group0 m
      in \<lparr>f_pgm_name = pgm_name unit,
          f_inc_name = inc_name unit,
          f_type = type unit,
          f_name = name unit,
          f_start_line = start_line unit,
          f_end_line = end_line unit,
          f_issue_type = py ''ObsoleteDescribeTableUsage'',
          f_severity = py ''warning'',
          f_line = line_of_offset src (int (m_start m)),
          f_message =
            py ''Obsolete 'DESCRIBE TABLE '' @ table @ py '' LINES '' @ target @ [39] @
            py '' found. Use LINES( '' @ table @ py '' ) instead for S/4HANA compatibility.'',
          f_suggestion = make_generic_suggestion table target,
          f_snippet = snippet_at src (int (m_start m)) (int (m_end m)),
          f_meta =
            [(py ''original_statement'', strip stmt_text),
             (py ''replacement_syntax'',
              py ''DATA('' @ target @ py '') = LINES( '' @ table @ py '' ).''),
             (py ''note'',
              py ''Replaces DESCRIBE TABLE '' @ [8230] @
              py '' LINES with functional expression.'')]\<rparr>)"

text \<open>The loop over the matches, appending one finding for each.\<close>

fun collect_findings :: "Unit \<Rightarrow> pystr \<Rightarrow> py_match list \<Rightarrow> finding_dict list \<Rightarrow> finding_dict list" where
  "collect_findings unit src [] findings = findings"
| "collect_findings unit src (m # ms) findings =
     collect_findings unit src ms (findings @ [make_finding unit src m])"

text \<open>\<open>unit.code or ""\<close>: \<open>None\<close> and the empty string both give the empty string.\<close>

definition code_or_empty :: "Unit \<Rightarrow> pystr" where
  "code_or_empty unit = (case code unit of None \<Rightarrow> [] | Some c \<Rightarrow> if c = [] then [] else c)"

definition scan_unit :: "unicode_db \<Rightarrow> Unit \<Rightarrow> scan_result" where
  "scan_unit ucd unit =
     (let src = code_or_empty unit;
          findings = collect_findings unit src (finditer ucd DESCRIBE_TABLE_RE src) []
      in \<lparr>r_pgm_name = pgm_name unit,
          r_inc_name = inc_name unit,
          r_type = type unit,
          r_name = name unit,
          r_start_line = start_line unit,
          r_end_line = end_line unit,
          r_code = code unit,
          r_describe_findings = findings\<rparr>)"

section \<open>Endpoint\<close>

text \<open>
  The loop of \<open>scan_describe_table\<close>: a result is appended when its list of findings is
  true, that is, not empty.
\<close>

fun scan_loop :: "unicode_db \<Rightarrow> Unit list \<Rightarrow> scan_result list \<Rightarrow> scan_result list" where
  "scan_loop ucd [] results = results"
| "scan_loop ucd (u # units) results =
     (let res = scan_unit ucd u
      in if r_describe_findings res \<noteq> [] then scan_loop ucd units (results @ [res])
         else scan_loop ucd units results)"

definition scan_describe_table :: "unicode_db \<Rightarrow> Unit list \<Rightarrow> scan_result list" where
  "scan_describe_table ucd units = scan_loop ucd units []"

section \<open>A result read back as a request\<close>

text \<open>
  A scan result has the fields of \<open>Unit\<close>, and a finding those of \<open>Finding\<close>: when a
  result is posted to the endpoint again, the request models read it field by field.
\<close>

definition as_finding :: "finding_dict \<Rightarrow> Finding" where
  "as_finding f =
     \<lparr>fm_pgm_name = Some (f_pgm_name f),
      fm_inc_name = Some (f_inc_name f),
      fm_type = Some (f_type f),
      fm_name = f_name f,
      fm_start_line = f_start_line f,
      fm_end_line = f_end_line f,
      fm_issue_type = Some (f_issue_type f),
      fm_severity = Some (f_severity f),
      fm_line = Some (f_line f),
      fm_message = Some (f_message f),
      fm_suggestion = Some (f_suggestion f),
      fm_snippet = Some (f_snippet f),
      fm_meta = Some (map (\<lambda>(k, v). (k, Any_str v)) (f_meta f))\<rparr>"

definition as_unit :: "scan_result \<Rightarrow> Unit" where
  "as_unit r =
     \<lparr>pgm_name = r_pgm_name r,
      inc_name = r_inc_name r,
      type = r_type r,
      name = r_name r,
      start_line = r_start_line r,
      end_line = r_end_line r,
      code = r_code r,
      describe_findings = Some (map as_finding (r_describe_findings r))\<rparr>"

section \<open>The construct in the words of the specification\<close>

text \<open>
  The specification describes what the rule finds: the construct
  \<open>DESCRIBE TABLE <table> LINES <target>\<close>, its three keywords in any case, \<open><table>\<close> and
  \<open><target>\<close> identifiers of letters, digits and underscores, and white space of any
  length (line breaks included) between the tokens. \<open>occurrence ucd w table target\<close>
  says that the text \<open>w\<close> is such a construct with these two identifiers. It is a
  description, not a program: the matcher above is compared with it below.
\<close>

definition keyword :: "string \<Rightarrow> pystr \<Rightarrow> bool" where
  "keyword k w \<longleftrightarrow> list_all2 literal_ignore (py k) w"

definition spaces :: "pystr \<Rightarrow> bool" where
  "spaces w \<longleftrightarrow> w \<noteq> [] \<and> list_all is_space w"

definition ident :: "unicode_db \<Rightarrow> pystr \<Rightarrow> bool" where
  "ident ucd w \<longleftrightarrow> w \<noteq> [] \<and> list_all (is_word ucd) w"

definition occurrence :: "unicode_db \<Rightarrow> pystr \<Rightarrow> pystr \<Rightarrow> pystr \<Rightarrow> bool" where
  "occurrence ucd w table target \<longleftrightarrow>
     (\<exists>k1 s1 k2 s2 s3 k3 s4.
        w = k1 @ s1 @ k2 @ s2 @ table @ s3 @ k3 @ s4 @ target \<and>
        keyword ''describe'' k1 \<and> spaces s1 \<and> keyword ''table'' k2 \<and> spaces s2 \<and>
        ident ucd table \<and> spaces s3 \<and> keyword ''lines'' k3 \<and> spaces s4 \<and>
        ident ucd target)"

section \<open>Example units\<close>

text \<open>A unit of a form routine with the given name and text, for the scenarios below.\<close>

definition example_unit :: "string \<Rightarrow> pystr \<Rightarrow> Unit" where
  "example_unit nm src =
     \<lparr>pgm_name = py ''ZPROG'', inc_name = py ''ZINC'', type = py ''FORM'', name = Some (py nm),
      start_line = Some 10, end_line = Some 42, code = Some src, describe_findings = None\<rparr>"

text \<open>The text of Scenario D: the statement on three lines.\<close>

definition scenario_D :: pystr where
  "scenario_D = py ''DESCRIBE TABLE'' @ [10] @ py ''  LT_TAB'' @ [10] @ py ''LINES LV_N.''"

text \<open>A text with two statements, the second in lower case.\<close>

definition two_statements :: pystr where
  "two_statements = py ''DESCRIBE TABLE A LINES B. describe  table c lines d''"

section \<open>Properties\<close>

subsection \<open>Evaluation and the loops\<close>

declare finditer_from.simps [simp del]

lemmas eval_defs = finditer_def finditer_from.simps DESCRIBE_TABLE_RE_def literals_def py_def is_word_def is_alnum_def
  is_space_def literal_ignore_def

lemma collect_findings_append:
  "collect_findings unit src ms acc = acc @ map (make_finding unit src) ms"
  by (induction ms arbitrary: acc) simp_all

lemma scan_unit_findings:
  "r_describe_findings (scan_unit ucd unit) =
     map (make_finding unit (code_or_empty unit)) (finditer ucd DESCRIBE_TABLE_RE (code_or_empty unit))"
  by (simp add: scan_unit_def collect_findings_append Let_def)

lemma scan_unit_fields:
  "r_pgm_name (scan_unit ucd unit) = pgm_name unit"
  "r_inc_name (scan_unit ucd unit) = inc_name unit"
  "r_type (scan_unit ucd unit) = type unit"
  "r_name (scan_unit ucd unit) = name unit"
  "r_start_line (scan_unit ucd unit) = start_line unit"
  "r_end_line (scan_unit ucd unit) = end_line unit"
  "r_code (scan_unit ucd unit) = code unit"
  by (simp_all add: scan_unit_def Let_def)

lemma scan_loop_append:
  "scan_loop ucd units acc =
     acc @ filter (\<lambda>r. r_describe_findings r \<noteq> []) (map (scan_unit ucd) units)"
  by (induction units arbitrary: acc) (simp_all add: Let_def)

lemma scan_describe_table_filter:
  "scan_describe_table ucd units =
     filter (\<lambda>r. r_describe_findings r \<noteq> []) (map (scan_unit ucd) units)"
  by (simp add: scan_describe_table_def scan_loop_append)

lemma finditer_empty: "finditer ucd DESCRIBE_TABLE_RE [] = []"
  by (simp add: eval_defs)

lemma finditer_scenario_A:
  "finditer ucd DESCRIBE_TABLE_RE (py ''DESCRIBE TABLE LT_TAB LINES LV_LINES.'') =
    [\<lparr>m_string = py ''DESCRIBE TABLE LT_TAB LINES LV_LINES.'', m_start = 0, m_end = 36,
      m_marks = [15, 21, 28, 36]\<rparr>]"
  by (simp add: eval_defs)

lemma finditer_scenario_B: "finditer ucd DESCRIBE_TABLE_RE (py ''WRITE 'hello'.'') = []"
  by (simp add: eval_defs)

lemma code_example_unit [simp]: "code_or_empty (example_unit nm src) = src"
  by (simp add: code_or_empty_def example_unit_def)

subsection \<open>The batch keeps the units with findings\<close>

text \<open>
  Claim C2. For every sequence of units the batch coordinator returns exactly the scan
  results whose list of findings is not empty, in the order of the input: its loop is
  the filter of the scanned units. A unit without findings is left out, and the function
  has no error result. The second theorem is Scenario C: of three units where the first
  and the third match, exactly these two are returned, in this order.
\<close>

theorem batch_keeps_units_with_findings:
  "scan_describe_table ucd units =
     filter (\<lambda>r. r_describe_findings r \<noteq> []) (map (scan_unit ucd) units)"
  by (rule scan_describe_table_filter)

theorem batch_scenario_C:
  "\<forall>ucd. map r_name (scan_describe_table ucd
       [example_unit ''U1'' (py ''DESCRIBE TABLE LT_TAB LINES LV_LINES.''),
        example_unit ''U2'' (py ''WRITE 'hello'.''),
        example_unit ''U3'' (py ''DESCRIBE TABLE LT_TAB LINES LV_LINES.'')]) =
     [Some (py ''U1''), Some (py ''U3'')]"
proof
  fix ucd
  show "map r_name (scan_describe_table ucd
       [example_unit ''U1'' (py ''DESCRIBE TABLE LT_TAB LINES LV_LINES.''),
        example_unit ''U2'' (py ''WRITE 'hello'.''),
        example_unit ''U3'' (py ''DESCRIBE TABLE LT_TAB LINES LV_LINES.'')]) =
     [Some (py ''U1''), Some (py ''U3'')]"
    unfolding batch_keeps_units_with_findings [of ucd]
    by (simp add: scan_unit_findings finditer_scenario_A finditer_scenario_B scan_unit_fields)
       (simp add: example_unit_def)
qed

subsection \<open>A unit without text\<close>

text \<open>
  Claim C6. When the \<open>code\<close> of a unit is \<open>None\<close> or the empty string, the scanned text is
  the empty string and the scan returns no finding (it has no error result); the unit's
  result is in no batch output, and the output is the one of the batch without the unit.
\<close>

theorem empty_text_no_findings:
  assumes "code unit = None \<or> code unit = Some []"
  shows "code_or_empty unit = [] \<and>
         r_describe_findings (scan_unit ucd unit) = [] \<and>
         scan_unit ucd unit \<notin> set (scan_describe_table ucd units) \<and>
         scan_describe_table ucd (us @ unit # vs) = scan_describe_table ucd (us @ vs)"
proof -
  from assms have src: "code_or_empty unit = []"
    by (auto simp: code_or_empty_def)
  then have none: "r_describe_findings (scan_unit ucd unit) = []"
    by (simp add: scan_unit_findings finditer_empty)
  have "\<forall>r \<in> set (scan_describe_table ucd units). r_describe_findings r \<noteq> []"
    by (simp add: scan_describe_table_filter)
  with none have "scan_unit ucd unit \<notin> set (scan_describe_table ucd units)"
    by blast
  with src none show ?thesis
    by (simp add: scan_describe_table_filter)
qed

theorem empty_text_no_findings_witness:
  "\<forall>ucd. r_describe_findings
       (scan_unit ucd ((example_unit ''U0'' [])\<lparr>code := None\<rparr>)) = [] \<and>
     scan_describe_table ucd
       [example_unit ''U1'' (py ''DESCRIBE TABLE LT_TAB LINES LV_LINES.''),
        (example_unit ''U0'' [])\<lparr>code := None\<rparr>] =
     scan_describe_table ucd [example_unit ''U1'' (py ''DESCRIBE TABLE LT_TAB LINES LV_LINES.'')]"
proof
  fix ucd
  have "code ((example_unit ''U0'' [])\<lparr>code := None\<rparr>) = None \<or>
        code ((example_unit ''U0'' [])\<lparr>code := None\<rparr>) = Some []"
    by simp
  from empty_text_no_findings [OF this, of ucd "[]"
      "[example_unit ''U1'' (py ''DESCRIBE TABLE LT_TAB LINES LV_LINES.'')]" "[]"]
  show "r_describe_findings
       (scan_unit ucd ((example_unit ''U0'' [])\<lparr>code := None\<rparr>)) = [] \<and>
     scan_describe_table ucd
       [example_unit ''U1'' (py ''DESCRIBE TABLE LT_TAB LINES LV_LINES.''),
        (example_unit ''U0'' [])\<lparr>code := None\<rparr>] =
     scan_describe_table ucd [example_unit ''U1'' (py ''DESCRIBE TABLE LT_TAB LINES LV_LINES.'')]"
    by simp
qed

lemma py_slice_nat:
  "a \<le> length xs \<Longrightarrow> b \<le> length xs \<Longrightarrow> py_slice xs (int a) (int b) = take (b - a) (drop a xs)"
  by (simp add: py_slice_def slice_index_def)

lemma newline_not_in_replace: "10 \<notin> set (py_replace xs 10 [92, 110])"
  by (induction xs) (simp_all add: py_replace_def)

subsection \<open>The snippet\<close>

text \<open>
  Claim C5, as amended. For a match span \<open>start \<le> end \<le> len(text)\<close> the snippet is the
  text from 60 characters before \<open>start\<close> (or from the beginning of the text) to 60
  characters after \<open>end\<close> (or to the end of the text), in which every line feed (code
  10) is replaced by the two characters backslash and \<open>n\<close> (codes 92 and 110); no line
  feed is left in the snippet. Every other character is kept as it is, the other
  characters that break a line included (the carriage return, U+0085, U+2028): the
  source replaces the line feed only. (The offsets are natural numbers here, so
  \<open>start - 60\<close> is 0 when \<open>start\<close> is below 60, as \<open>max(0, start - 60)\<close> is in the source.)
\<close>

theorem snippet_window:
  assumes "start \<le> end'" and "end' \<le> length s"
  shows "snippet_at s (int start) (int end') =
           concat (map (\<lambda>c. if c = 10 then [92, 110] else [c])
             (take (min (length s) (end' + 60) - (start - 60)) (drop (start - 60) s))) \<and>
         10 \<notin> set (snippet_at s (int start) (int end'))"
proof -
  have a: "max 0 (int start - 60) = int (start - 60)"
    by simp
  have e: "min (int (length s)) (int end' + 60) = int (min (length s) (end' + 60))"
    by simp
  have "start - 60 \<le> length s"
    using assms by simp
  then have "py_slice s (int (start - 60)) (int (min (length s) (end' + 60))) =
      take (min (length s) (end' + 60) - (start - 60)) (drop (start - 60) s)"
    by (rule py_slice_nat) simp
  then have eq: "snippet_at s (int start) (int end') =
      py_replace (take (min (length s) (end' + 60) - (start - 60)) (drop (start - 60) s)) 10 [92, 110]"
    unfolding snippet_at_def Let_def a e by simp
  show ?thesis
    unfolding eq using newline_not_in_replace by (simp add: py_replace_def)
qed

theorem snippet_window_witness:
  "snippet_at ([65, 10, 66] @ replicate 70 32 @ [67, 10, 68]) 1 2 =
     [65, 92, 110, 66] @ replicate 59 32"
  using snippet_window [of 1 2 "[65, 10, 66] @ replicate 70 32 @ [67, 10, 68]"]
  by (simp add: replicate_add [of 59 11, simplified] numeral_eq_Suc)

text \<open>
  The claim as it was stated, that every line-break character is replaced and the snippet
  holds no line break, fails on a text whose line ends with carriage return and line
  feed: the line feed is escaped and the carriage return (code 13) stays in the snippet.
\<close>

theorem snippet_keeps_carriage_return:
  "snippet_at [65, 13, 10, 66] 0 4 = [65, 13, 92, 110, 66] \<and>
   13 \<in> set (snippet_at [65, 13, 10, 66] 0 4)"
  by (simp add: snippet_at_def py_slice_def slice_index_def py_replace_def Let_def)

lemma finditer_scenario_D:
  "finditer ucd DESCRIBE_TABLE_RE scenario_D =
    [\<lparr>m_string = scenario_D, m_start = 0, m_end = 34, m_marks = [17, 23, 30, 34]\<rparr>]"
  by (simp add: eval_defs scenario_D_def)

lemma finditer_undescribe:
  "finditer ucd DESCRIBE_TABLE_RE (py ''UNDESCRIBE TABLE T LINES N'') =
    [\<lparr>m_string = py ''UNDESCRIBE TABLE T LINES N'', m_start = 2, m_end = 26,
      m_marks = [17, 18, 25, 26]\<rparr>]"
  by (simp add: eval_defs)

lemma finditer_from_start:
  "m \<in> set (finditer_from ucd re s pos) \<Longrightarrow> pos \<le> m_start m \<and> m_start m \<le> length s"
proof (induction ucd re s pos rule: finditer_from.induct)
  case (1 ucd re s pos)
  show ?case
  proof (cases "length s < pos")
    case True
    with "1.prems" show ?thesis
      by (simp add: finditer_from.simps)
  next
    case False
    show ?thesis
    proof (cases "sre_match ucd re (drop pos s) pos [0, 0, 0, 0]")
      case None
      with False "1.prems" have "m \<in> set (finditer_from ucd re s (Suc pos))"
        by (simp add: finditer_from.simps [of ucd re s pos])
      with "1.IH"(1) [OF False None] show ?thesis
        by simp
    next
      case (Some r)
      obtain e mk where r: "r = (e, mk)"
        by (cases r)
      from False Some r "1.prems" consider "m_start m = pos"
        | "m \<in> set (finditer_from ucd re s (if pos < e then e else Suc pos))"
        by (auto simp: finditer_from.simps [of ucd re s pos])
      then show ?thesis
      proof cases
        case 1
        with False show ?thesis by simp
      next
        case 2
        from "1.IH"(2) [OF False Some r [symmetric] 2] show ?thesis
          by (auto split: if_splits)
      qed
    qed
  qed
qed

lemma line_of_offset_nat:
  "off \<le> length s \<Longrightarrow>
     line_of_offset s (int off) = 1 + int (length (filter (\<lambda>c. c = 10) (take off s)))"
  using py_slice_nat [of 0 s off] by (simp add: line_of_offset_def py_count_def)

subsection \<open>The line of an offset\<close>

text \<open>
  Claim C4. For an offset within the text, \<open>line_of_offset\<close> is one more than the number
  of line feeds before the offset, and it is 1 at offset 0. The \<open>line\<close> of a finding is
  that number at the start of its match, where the keyword \<open>DESCRIBE\<close> stands. In
  Scenario D (the second theorem) the match starts on line 1 and \<open>LINES\<close>, at offset 24,
  stands on line 3: the one finding reports line 1.
\<close>

theorem line_of_offset_counts_newlines:
  assumes "off \<le> length s"
  shows "line_of_offset s (int off) = 1 + int (length (filter (\<lambda>c. c = 10) (take off s))) \<and>
         line_of_offset s 0 = 1 \<and>
         map f_line (r_describe_findings (scan_unit ucd unit)) =
           map (\<lambda>m. 1 + int (length (filter (\<lambda>c. c = 10) (take (m_start m) (code_or_empty unit)))))
             (finditer ucd DESCRIBE_TABLE_RE (code_or_empty unit))"
proof -
  have "line_of_offset s 0 = 1"
    using line_of_offset_nat [of 0 s] by simp
  moreover have "f_line (make_finding unit (code_or_empty unit) m) =
      1 + int (length (filter (\<lambda>c. c = 10) (take (m_start m) (code_or_empty unit))))"
    if "m \<in> set (finditer ucd DESCRIBE_TABLE_RE (code_or_empty unit))" for m
  proof -
    from that have "m_start m \<le> length (code_or_empty unit)"
      unfolding finditer_def by (simp add: finditer_from_start)
    then show ?thesis
      by (simp add: make_finding_def Let_def line_of_offset_nat)
  qed
  ultimately show ?thesis
    using assms by (simp add: line_of_offset_nat scan_unit_findings)
qed

theorem line_of_offset_scenario_D:
  "\<forall>ucd. line_of_offset scenario_D 24 = 3 \<and> line_of_offset scenario_D 0 = 1 \<and>
     map m_start (finditer ucd DESCRIBE_TABLE_RE scenario_D) = [0] \<and>
     map f_line (r_describe_findings (scan_unit ucd (example_unit ''D'' scenario_D))) = [1]"
proof
  fix ucd
  have len: "(24::nat) \<le> length scenario_D"
    by (simp add: scenario_D_def py_def)
  from line_of_offset_counts_newlines [OF len, of ucd "example_unit ''D'' scenario_D"]
  show "line_of_offset scenario_D 24 = 3 \<and> line_of_offset scenario_D 0 = 1 \<and>
     map m_start (finditer ucd DESCRIBE_TABLE_RE scenario_D) = [0] \<and>
     map f_line (r_describe_findings (scan_unit ucd (example_unit ''D'' scenario_D))) = [1]"
    by (simp add: finditer_scenario_D) (simp add: scenario_D_def py_def)
qed

subsection \<open>The fields of the unit\<close>

text \<open>
  Claim C7. The scan result carries every field of the unit but \<open>describe_findings\<close>
  unchanged, and each finding carries the program, include, type, name, start line and
  end line of the unit. The scanner is a function from the unit to the result: the source
  assigns to no field of the unit (\<open>model_dump\<close> builds a new dictionary, to which the
  findings are added), so the unit is the same before and after the call.
\<close>

theorem scan_unit_frame:
  "r_pgm_name (scan_unit ucd unit) = pgm_name unit \<and>
   r_inc_name (scan_unit ucd unit) = inc_name unit \<and>
   r_type (scan_unit ucd unit) = type unit \<and>
   r_name (scan_unit ucd unit) = name unit \<and>
   r_start_line (scan_unit ucd unit) = start_line unit \<and>
   r_end_line (scan_unit ucd unit) = end_line unit \<and>
   r_code (scan_unit ucd unit) = code unit \<and>
   (\<forall>f \<in> set (r_describe_findings (scan_unit ucd unit)).
      f_pgm_name f = pgm_name unit \<and> f_inc_name f = inc_name unit \<and> f_type f = type unit \<and>
      f_name f = name unit \<and> f_start_line f = start_line unit \<and> f_end_line f = end_line unit)"
  by (auto simp: scan_unit_fields scan_unit_findings make_finding_def Let_def)

theorem scan_unit_frame_witness:
  "\<forall>ucd. map (\<lambda>f. (f_pgm_name f, f_inc_name f, f_type f, f_name f, f_start_line f, f_end_line f))
       (r_describe_findings (scan_unit ucd (example_unit ''U1'' (py ''DESCRIBE TABLE LT_TAB LINES LV_LINES.'')))) =
     [(py ''ZPROG'', py ''ZINC'', py ''FORM'', Some (py ''U1''), Some 10, Some 42)] \<and>
     r_name (scan_unit ucd (example_unit ''U1'' (py ''DESCRIBE TABLE LT_TAB LINES LV_LINES.''))) = Some (py ''U1'')"
proof
  fix ucd
  from scan_unit_frame [of ucd "example_unit ''U1'' (py ''DESCRIBE TABLE LT_TAB LINES LV_LINES.'')"]
  show "map (\<lambda>f. (f_pgm_name f, f_inc_name f, f_type f, f_name f, f_start_line f, f_end_line f))
       (r_describe_findings (scan_unit ucd (example_unit ''U1'' (py ''DESCRIBE TABLE LT_TAB LINES LV_LINES.'')))) =
     [(py ''ZPROG'', py ''ZINC'', py ''FORM'', Some (py ''U1''), Some 10, Some 42)] \<and>
     r_name (scan_unit ucd (example_unit ''U1'' (py ''DESCRIBE TABLE LT_TAB LINES LV_LINES.''))) = Some (py ''U1'')"
    by (simp add: scan_unit_findings finditer_scenario_A) (simp add: example_unit_def)
qed

subsection \<open>The constant parts of a finding\<close>

text \<open>
  Claim C10. Every finding has the issue type \<open>ObsoleteDescribeTableUsage\<close> and the
  severity \<open>warning\<close>, and its \<open>meta\<close> has exactly the keys \<open>original_statement\<close>,
  \<open>replacement_syntax\<close> and \<open>note\<close>: the stripped text of the match, the replacement
  statement built from the two groups, and the fixed note.
\<close>

theorem finding_constants:
  "(\<forall>f \<in> set (r_describe_findings (scan_unit ucd unit)).
      f_issue_type f = py ''ObsoleteDescribeTableUsage'' \<and>
      f_severity f = py ''warning'' \<and>
      map fst (f_meta f) = [py ''original_statement'', py ''replacement_syntax'', py ''note''] \<and>
      distinct (map fst (f_meta f))) \<and>
   map f_meta (r_describe_findings (scan_unit ucd unit)) =
     map (\<lambda>m. [(py ''original_statement'', strip (group0 m)),
               (py ''replacement_syntax'',
                py ''DATA('' @ group_target m @ py '') = LINES( '' @ group_table m @ py '' ).''),
               (py ''note'',
                py ''Replaces DESCRIBE TABLE '' @ [8230] @ py '' LINES with functional expression.'')])
       (finditer ucd DESCRIBE_TABLE_RE (code_or_empty unit))"
proof -
  have keys: "distinct [py ''original_statement'', py ''replacement_syntax'', py ''note'']"
    by (simp add: py_def)
  show ?thesis
    using keys by (auto simp: scan_unit_findings make_finding_def Let_def)
qed

theorem finding_constants_witness:
  "\<forall>ucd. map (\<lambda>f. (f_issue_type f, f_severity f, f_meta f))
       (r_describe_findings (scan_unit ucd
          (example_unit ''U1'' (py ''  describe table lt_tab lines lv_lines.'')))) =
     [(py ''ObsoleteDescribeTableUsage'', py ''warning'',
       [(py ''original_statement'', py ''describe table lt_tab lines lv_lines''),
        (py ''replacement_syntax'', py ''DATA(lv_lines) = LINES( lt_tab ).''),
        (py ''note'',
         py ''Replaces DESCRIBE TABLE '' @ [8230] @ py '' LINES with functional expression.'')])]"
proof
  fix ucd
  have m: "finditer ucd DESCRIBE_TABLE_RE (py ''  describe table lt_tab lines lv_lines.'') =
    [\<lparr>m_string = py ''  describe table lt_tab lines lv_lines.'', m_start = 2, m_end = 38,
      m_marks = [17, 23, 30, 38]\<rparr>]"
    by (simp add: eval_defs)
  from finding_constants [of ucd "example_unit ''U1'' (py ''  describe table lt_tab lines lv_lines.'')"]
  show "map (\<lambda>f. (f_issue_type f, f_severity f, f_meta f))
       (r_describe_findings (scan_unit ucd
          (example_unit ''U1'' (py ''  describe table lt_tab lines lv_lines.'')))) =
     [(py ''ObsoleteDescribeTableUsage'', py ''warning'',
       [(py ''original_statement'', py ''describe table lt_tab lines lv_lines''),
        (py ''replacement_syntax'', py ''DATA(lv_lines) = LINES( lt_tab ).''),
        (py ''note'',
         py ''Replaces DESCRIBE TABLE '' @ [8230] @ py '' LINES with functional expression.'')])]"
    by (simp add: scan_unit_findings m)
       (simp add: Let_def make_finding_def group0_def group_table_def group_target_def substring_def
          strip_def is_space_def py_def)
qed

subsection \<open>Scenario A\<close>

text \<open>
  Claim C3. A unit with the text \<open>DESCRIBE TABLE LT_TAB LINES LV_LINES.\<close> has exactly one
  finding; its \<open>replacement_syntax\<close> is \<open>DATA(LV_LINES) = LINES( LT_TAB ).\<close> and its
  message is the template with \<open>LT_TAB\<close> for the table and \<open>LV_LINES\<close> for the target.
\<close>

theorem scenario_A_finding:
  assumes "code unit = Some (py ''DESCRIBE TABLE LT_TAB LINES LV_LINES.'')"
  shows "\<exists>f. r_describe_findings (scan_unit ucd unit) = [f] \<and>
           map_of (f_meta f) (py ''replacement_syntax'') =
             Some (py ''DATA(LV_LINES) = LINES( LT_TAB ).'') \<and>
           f_message f =
             py ''Obsolete 'DESCRIBE TABLE LT_TAB LINES LV_LINES' found. Use LINES( LT_TAB ) instead for S/4HANA compatibility.''"
proof -
  from assms have src: "code_or_empty unit = py ''DESCRIBE TABLE LT_TAB LINES LV_LINES.''"
    by (simp add: code_or_empty_def py_def)
  show ?thesis
    unfolding scan_unit_findings src finditer_scenario_A
    by (simp add: Let_def make_finding_def group0_def group_table_def group_target_def substring_def
          py_def)
qed

theorem scenario_A_finding_witness:
  "\<forall>ucd. map (\<lambda>f. (f_message f, map_of (f_meta f) (py ''replacement_syntax'')))
       (r_describe_findings (scan_unit ucd
          (example_unit ''U1'' (py ''DESCRIBE TABLE LT_TAB LINES LV_LINES.'')))) =
     [(py ''Obsolete 'DESCRIBE TABLE LT_TAB LINES LV_LINES' found. Use LINES( LT_TAB ) instead for S/4HANA compatibility.'',
       Some (py ''DATA(LV_LINES) = LINES( LT_TAB ).''))]"
proof
  fix ucd
  have "code (example_unit ''U1'' (py ''DESCRIBE TABLE LT_TAB LINES LV_LINES.'')) =
      Some (py ''DESCRIBE TABLE LT_TAB LINES LV_LINES.'')"
    by (simp add: example_unit_def)
  from scenario_A_finding [OF this, of ucd]
  show "map (\<lambda>f. (f_message f, map_of (f_meta f) (py ''replacement_syntax'')))
       (r_describe_findings (scan_unit ucd
          (example_unit ''U1'' (py ''DESCRIBE TABLE LT_TAB LINES LV_LINES.'')))) =
     [(py ''Obsolete 'DESCRIBE TABLE LT_TAB LINES LV_LINES' found. Use LINES( LT_TAB ) instead for S/4HANA compatibility.'',
       Some (py ''DATA(LV_LINES) = LINES( LT_TAB ).''))]"
    by auto
qed

subsection \<open>The keyword inside a word\<close>

text \<open>
  Claim C9. The pattern does not ask for a word boundary before \<open>DESCRIBE\<close>: in the text
  \<open>UNDESCRIBE TABLE T LINES N\<close> a match starts at offset 2, between two word characters
  of \<open>UNDESCRIBE\<close>, and the unit has a finding for \<open>DESCRIBE TABLE T LINES N\<close>.
\<close>

theorem keyword_inside_word:
  assumes "code unit = Some (py ''UNDESCRIBE TABLE T LINES N'')"
  shows "map m_start (finditer ucd DESCRIBE_TABLE_RE (code_or_empty unit)) = [2] \<and>
         is_word ucd (code_or_empty unit ! 1) \<and> is_word ucd (code_or_empty unit ! 2) \<and>
         map (\<lambda>f. map_of (f_meta f) (py ''original_statement''))
           (r_describe_findings (scan_unit ucd unit)) = [Some (py ''DESCRIBE TABLE T LINES N'')]"
proof -
  from assms have src: "code_or_empty unit = py ''UNDESCRIBE TABLE T LINES N''"
    by (simp add: code_or_empty_def py_def)
  have "is_word ucd (py ''UNDESCRIBE TABLE T LINES N'' ! 1) \<and>
        is_word ucd (py ''UNDESCRIBE TABLE T LINES N'' ! 2)"
    by (simp add: py_def is_word_def is_alnum_def)
  then show ?thesis
    unfolding scan_unit_findings src finditer_undescribe
    by (simp add: Let_def make_finding_def group0_def substring_def strip_def is_space_def py_def)
qed

theorem keyword_inside_word_witness:
  "\<forall>ucd. map f_line (r_describe_findings (scan_unit ucd
       (example_unit ''U1'' (py ''UNDESCRIBE TABLE T LINES N'')))) = [1] \<and>
     map m_start (finditer ucd DESCRIBE_TABLE_RE (py ''UNDESCRIBE TABLE T LINES N'')) = [2]"
proof
  fix ucd
  have "code (example_unit ''U1'' (py ''UNDESCRIBE TABLE T LINES N'')) =
      Some (py ''UNDESCRIBE TABLE T LINES N'')"
    by (simp add: example_unit_def)
  from keyword_inside_word [OF this, of ucd]
  show "map f_line (r_describe_findings (scan_unit ucd
       (example_unit ''U1'' (py ''UNDESCRIBE TABLE T LINES N'')))) = [1] \<and>
     map m_start (finditer ucd DESCRIBE_TABLE_RE (py ''UNDESCRIBE TABLE T LINES N'')) = [2]"
    by (simp add: scan_unit_findings finditer_undescribe)
       (simp add: Let_def make_finding_def line_of_offset_def py_count_def py_slice_def slice_index_def py_def)
qed

lemma scan_unit_ignores_findings:
  "scan_unit ucd (unit\<lparr>describe_findings := d\<rparr>) = scan_unit ucd unit"
  by (simp add: scan_unit_def code_or_empty_def collect_findings_append make_finding_def Let_def)

lemma scan_unit_as_unit: "scan_unit ucd (as_unit (scan_unit ucd unit)) = scan_unit ucd unit"
proof -
  have "as_unit (scan_unit ucd unit) =
      unit\<lparr>describe_findings := Some (map as_finding (r_describe_findings (scan_unit ucd unit)))\<rparr>"
    by (simp add: as_unit_def scan_unit_fields)
  then show ?thesis
    by (simp add: scan_unit_ignores_findings)
qed

subsection \<open>Scanning again\<close>

text \<open>
  Claim C8. The scanner and the batch coordinator are functions of their input: the
  source reads nothing but the unit and the compiled pattern, which is never changed, so
  two scans of the same unit return the same findings in the same order. What a second
  scan could depend on is what the first one attached: the result does not depend on
  the findings a unit already carries, scanning a result that is read back as a unit
  returns that result again, and so does the batch scan on its own output.
\<close>

theorem scan_idempotent:
  "scan_unit ucd (unit\<lparr>describe_findings := d\<rparr>) = scan_unit ucd unit \<and>
   scan_unit ucd (as_unit (scan_unit ucd unit)) = scan_unit ucd unit \<and>
   scan_describe_table ucd (map as_unit (scan_describe_table ucd units)) =
     scan_describe_table ucd units"
proof -
  have "map (scan_unit ucd) (map as_unit (filter P (map (scan_unit ucd) units))) =
      filter P (map (scan_unit ucd) units)" for P
    by (induction units) (simp_all add: scan_unit_as_unit)
  then show ?thesis
    by (simp add: scan_describe_table_filter scan_unit_ignores_findings scan_unit_as_unit)
qed

theorem scan_idempotent_witness:
  "\<forall>ucd. map r_name (scan_describe_table ucd (map as_unit (scan_describe_table ucd
       [example_unit ''U1'' (py ''DESCRIBE TABLE LT_TAB LINES LV_LINES.''),
        example_unit ''U2'' (py ''WRITE 'hello'.'')]))) = [Some (py ''U1'')]"
proof
  fix ucd
  from scan_idempotent [of ucd undefined undefined
      "[example_unit ''U1'' (py ''DESCRIBE TABLE LT_TAB LINES LV_LINES.''),
        example_unit ''U2'' (py ''WRITE 'hello'.'')]"]
  have "scan_describe_table ucd (map as_unit (scan_describe_table ucd
       [example_unit ''U1'' (py ''DESCRIBE TABLE LT_TAB LINES LV_LINES.''),
        example_unit ''U2'' (py ''WRITE 'hello'.'')])) =
     scan_describe_table ucd
       [example_unit ''U1'' (py ''DESCRIBE TABLE LT_TAB LINES LV_LINES.''),
        example_unit ''U2'' (py ''WRITE 'hello'.'')]"
    by blast
  then show "map r_name (scan_describe_table ucd (map as_unit (scan_describe_table ucd
       [example_unit ''U1'' (py ''DESCRIBE TABLE LT_TAB LINES LV_LINES.''),
        example_unit ''U2'' (py ''WRITE 'hello'.'')]))) = [Some (py ''U1'')]"
    by (simp add: scan_describe_table_filter scan_unit_findings finditer_scenario_A
          finditer_scenario_B scan_unit_fields)
       (simp add: example_unit_def)
qed

subsection \<open>The matching engine against the description\<close>

lemma max_until_sound:
  "max_until ucd ops s pos mk N = Some r \<Longrightarrow>
     \<exists>n. 0 < n \<and> n \<le> N \<and> sre_match ucd ops (drop n s) (pos + n) mk = Some r"
proof (induction N)
  case 0
  then show ?case by simp
next
  case (Suc N)
  show ?case
  proof (cases "sre_match ucd ops (drop (Suc N) s) (pos + Suc N) mk")
    case None
    with Suc.prems have "max_until ucd ops s pos mk N = Some r"
      by simp
    from Suc.IH [OF this] show ?thesis
      by (meson le_Suc_eq)
  next
    case (Some r')
    with Suc.prems have "r' = r"
      by simp
    with Some show ?thesis
      by (intro exI [of _ "Suc N"]) simp
  qed
qed

lemma max_until_complete:
  "0 < n \<Longrightarrow> n \<le> N \<Longrightarrow> sre_match ucd ops (drop n s) (pos + n) mk \<noteq> None \<Longrightarrow>
     max_until ucd ops s pos mk N \<noteq> None"
proof (induction N)
  case 0
  then show ?case by simp
next
  case (Suc N)
  show ?case
  proof (cases "n = Suc N")
    case True
    with Suc.prems show ?thesis
      by (auto split: option.splits)
  next
    case False
    with Suc.prems have "n \<le> N"
      by simp
    from Suc.IH [OF Suc.prems(1) this Suc.prems(3)] show ?thesis
      by (auto split: option.splits)
  qed
qed

lemma take_run: "n \<le> length (takeWhile P s) \<Longrightarrow> list_all P (take n s)"
proof -
  assume n: "n \<le> length (takeWhile P s)"
  have "take n s = take n (takeWhile P s @ dropWhile P s)"
    by simp
  also have "\<dots> = take n (takeWhile P s)"
    using n by (simp del: takeWhile_dropWhile_id)
  finally have "set (take n s) \<subseteq> set (takeWhile P s)"
    by (simp add: set_take_subset)
  then show ?thesis
    by (auto simp: list_all_iff dest: set_takeWhileD)
qed

lemma run_append: "list_all P u \<Longrightarrow> length u \<le> length (takeWhile P (u @ s))"
  by (simp add: list_all_iff takeWhile_append2)

lemma repeat_sound:
  assumes "sre_match ucd (Max_repeat cat # ops) s pos mk = Some r"
  obtains u s' where "s = u @ s'" and "u \<noteq> []" and "list_all (in_category ucd cat) u"
    and "sre_match ucd ops s' (pos + length u) mk = Some r"
proof -
  from assms obtain n where n: "0 < n" "n \<le> length (takeWhile (in_category ucd cat) s)"
    and m: "sre_match ucd ops (drop n s) (pos + n) mk = Some r"
    by (auto dest: max_until_sound)
  from n have len: "n \<le> length s"
    using length_takeWhile_le [of "in_category ucd cat" s] by simp
  show thesis
  proof
    show "s = take n s @ drop n s" by simp
    show "take n s \<noteq> []" using n len by auto
    show "list_all (in_category ucd cat) (take n s)" using n(2) by (rule take_run)
    show "sre_match ucd ops (drop n s) (pos + length (take n s)) mk = Some r"
      using m len by (simp add: min_absorb2)
  qed
qed

lemma repeat_complete:
  assumes "u \<noteq> []" and "list_all (in_category ucd cat) u"
    and "sre_match ucd ops s' (pos + length u) mk \<noteq> None"
  shows "sre_match ucd (Max_repeat cat # ops) (u @ s') pos mk \<noteq> None"
proof -
  have "max_until ucd ops (u @ s') pos mk (length (takeWhile (in_category ucd cat) (u @ s'))) \<noteq> None"
  proof (rule max_until_complete [of "length u"])
    show "0 < length u" using assms(1) by simp
    show "length u \<le> length (takeWhile (in_category ucd cat) (u @ s'))"
      using assms(2) by (rule run_append)
    show "sre_match ucd ops (drop (length u) (u @ s')) (pos + length u) mk \<noteq> None"
      using assms(3) by simp
  qed
  then show ?thesis by simp
qed

lemma last_repeat:
  "sre_match ucd [Max_repeat cat, Mark k] s pos mk =
     (let n = length (takeWhile (in_category ucd cat) s)
      in if n = 0 then None else Some (pos + n, mk[k := pos + n]))"
  by (cases "length (takeWhile (in_category ucd cat) s)") (simp_all add: Let_def)

lemma literals_sound_aux:
  "sre_match ucd (map Literal_ignore cs @ ops) s pos mk = Some r \<Longrightarrow>
     \<exists>w s'. s = w @ s' \<and> list_all2 literal_ignore cs w \<and>
       sre_match ucd ops s' (pos + length w) mk = Some r"
proof (induction cs arbitrary: s pos)
  case Nil
  then show ?case by simp
next
  case (Cons c cs)
  from Cons.prems obtain x s0 where s: "s = x # s0" and x: "literal_ignore c x"
    and m: "sre_match ucd (map Literal_ignore cs @ ops) s0 (Suc pos) mk = Some r"
    by (auto split: list.splits if_splits)
  from Cons.IH [OF m] obtain w s' where "s0 = w @ s'" "list_all2 literal_ignore cs w"
    "sre_match ucd ops s' (Suc pos + length w) mk = Some r"
    by blast
  with s x show ?case
    by (intro exI [of _ "x # w"] exI [of _ s']) simp
qed

lemma literals_sound:
  assumes "sre_match ucd (literals k @ ops) s pos mk = Some r"
  obtains w s' where "s = w @ s'" and "keyword k w"
    and "sre_match ucd ops s' (pos + length w) mk = Some r"
  using literals_sound_aux [OF assms [unfolded literals_def]] by (auto simp: keyword_def)

lemma literals_complete_aux:
  "list_all2 literal_ignore cs w \<Longrightarrow>
     sre_match ucd (map Literal_ignore cs @ ops) (w @ s') pos mk =
     sre_match ucd ops s' (pos + length w) mk"
  by (induction cs w arbitrary: pos rule: list_all2_induct) simp_all

lemma literals_complete:
  "keyword k w \<Longrightarrow>
     sre_match ucd (literals k @ ops) (w @ s') pos mk = sre_match ucd ops s' (pos + length w) mk"
  unfolding keyword_def literals_def by (rule literals_complete_aux)

lemma group_sound:
  assumes "sre_match ucd ([Mark a, Max_repeat cat, Mark b] @ ops) s pos mk = Some r"
  obtains u s' where "s = u @ s'" and "u \<noteq> []" and "list_all (in_category ucd cat) u"
    and "sre_match ucd ops s' (pos + length u) (mk[a := pos, b := pos + length u]) = Some r"
proof -
  from assms have "sre_match ucd (Max_repeat cat # Mark b # ops) s pos (mk[a := pos]) = Some r"
    by simp
  then obtain u s' where "s = u @ s'" "u \<noteq> []" "list_all (in_category ucd cat) u"
    "sre_match ucd (Mark b # ops) s' (pos + length u) (mk[a := pos]) = Some r"
    by (rule repeat_sound)
  then show thesis
    by (intro that [of u s']) simp_all
qed

lemma group_complete:
  assumes "u \<noteq> []" and "list_all (in_category ucd cat) u"
    and "sre_match ucd ops s' (pos + length u) (mk[a := pos, b := pos + length u]) \<noteq> None"
  shows "sre_match ucd ([Mark a, Max_repeat cat, Mark b] @ ops) (u @ s') pos mk \<noteq> None"
proof -
  from assms(3) have "sre_match ucd (Mark b # ops) s' (pos + length u) (mk[a := pos]) \<noteq> None"
    by simp
  with assms(1,2) have "sre_match ucd (Max_repeat cat # Mark b # ops) (u @ s') pos (mk[a := pos]) \<noteq> None"
    by (rule repeat_complete)
  then show ?thesis
    by simp
qed

lemma space_sound:
  assumes "sre_match ucd ([Max_repeat Category_space] @ ops) s pos mk = Some r"
  obtains u s' where "s = u @ s'" and "spaces u"
    and "sre_match ucd ops s' (pos + length u) mk = Some r"
proof -
  from assms have "sre_match ucd (Max_repeat Category_space # ops) s pos mk = Some r"
    by simp
  then obtain u s' where "s = u @ s'" "u \<noteq> []" "list_all (in_category ucd Category_space) u"
    "sre_match ucd ops s' (pos + length u) mk = Some r"
    by (rule repeat_sound)
  then show thesis
    by (intro that [of u s']) (simp_all add: spaces_def list_all_iff)
qed

lemma space_complete:
  assumes "spaces u" and "sre_match ucd ops s' (pos + length u) mk \<noteq> None"
  shows "sre_match ucd ([Max_repeat Category_space] @ ops) (u @ s') pos mk \<noteq> None"
proof -
  from assms(1) have "u \<noteq> []" and "list_all (in_category ucd Category_space) u"
    by (simp_all add: spaces_def list_all_iff)
  from this assms(2) have "sre_match ucd (Max_repeat Category_space # ops) (u @ s') pos mk \<noteq> None"
    by (rule repeat_complete)
  then show ?thesis
    by simp
qed

lemma word_sound:
  assumes "sre_match ucd ([Mark a, Max_repeat Category_word, Mark b] @ ops) s pos mk = Some r"
  obtains u s' where "s = u @ s'" and "ident ucd u"
    and "sre_match ucd ops s' (pos + length u) (mk[a := pos, b := pos + length u]) = Some r"
proof -
  from assms obtain u s' where "s = u @ s'" "u \<noteq> []" "list_all (in_category ucd Category_word) u"
    "sre_match ucd ops s' (pos + length u) (mk[a := pos, b := pos + length u]) = Some r"
    by (rule group_sound)
  then show thesis
    by (intro that [of u s']) (simp_all add: ident_def list_all_iff)
qed

lemma word_complete:
  assumes "ident ucd u"
    and "sre_match ucd ops s' (pos + length u) (mk[a := pos, b := pos + length u]) \<noteq> None"
  shows "sre_match ucd ([Mark a, Max_repeat Category_word, Mark b] @ ops) (u @ s') pos mk \<noteq> None"
proof -
  from assms(1) have "u \<noteq> []" and "list_all (in_category ucd Category_word) u"
    by (simp_all add: ident_def list_all_iff)
  from this assms(2) show ?thesis
    by (rule group_complete)
qed

lemma last_word_sound:
  assumes "sre_match ucd [Mark a, Max_repeat Category_word, Mark b] s pos mk = Some (e, mk')"
  obtains u s' where "s = u @ s'" and "ident ucd u" and "e = pos + length u"
    and "mk' = mk[a := pos, b := pos + length u]" and "s' = [] \<or> \<not> is_word ucd (hd s')"
proof -
  let ?P = "in_category ucd Category_word"
  from assms have m: "sre_match ucd [Max_repeat Category_word, Mark b] s pos (mk[a := pos]) = Some (e, mk')"
    by simp
  then have n: "length (takeWhile ?P s) \<noteq> 0"
    and e: "e = pos + length (takeWhile ?P s)"
    and mk: "mk' = mk[a := pos, b := pos + length (takeWhile ?P s)]"
    unfolding last_repeat by (auto simp: Let_def split: if_splits)
  show thesis
  proof (rule that [of "takeWhile ?P s" "dropWhile ?P s"])
    show "s = takeWhile ?P s @ dropWhile ?P s" by simp
    show "ident ucd (takeWhile ?P s)"
      using n by (auto simp: ident_def list_all_iff dest: set_takeWhileD)
    show "e = pos + length (takeWhile ?P s)" by (rule e)
    show "mk' = mk[a := pos, b := pos + length (takeWhile ?P s)]" by (rule mk)
    show "dropWhile ?P s = [] \<or> \<not> is_word ucd (hd (dropWhile ?P s))"
      using hd_dropWhile [of ?P s] by auto
  qed
qed

lemma last_word_complete:
  assumes "ident ucd u"
  shows "sre_match ucd [Mark a, Max_repeat Category_word, Mark b] (u @ s') pos mk \<noteq> None"
proof -
  from assms have "u \<noteq> []" and "list_all (in_category ucd Category_word) u"
    by (simp_all add: ident_def list_all_iff)
  then have "0 < length u" and "length u \<le> length (takeWhile (in_category ucd Category_word) (u @ s'))"
    by (simp_all add: run_append)
  then have "length (takeWhile (in_category ucd Category_word) (u @ s')) \<noteq> 0"
    by linarith
  then have "sre_match ucd [Max_repeat Category_word, Mark b] (u @ s') pos (mk[a := pos]) \<noteq> None"
    unfolding last_repeat by (simp add: Let_def)
  then show ?thesis
    by simp
qed

lemma pattern_sound:
  assumes "sre_match ucd DESCRIBE_TABLE_RE s pos [0, 0, 0, 0] = Some (e, mk)"
  obtains k1 s1 k2 s2 tb s3 k3 s4 tg rest where
    "s = k1 @ s1 @ k2 @ s2 @ tb @ s3 @ k3 @ s4 @ tg @ rest"
    and "keyword ''describe'' k1" and "spaces s1" and "keyword ''table'' k2" and "spaces s2"
    and "ident ucd tb" and "spaces s3" and "keyword ''lines'' k3" and "spaces s4"
    and "ident ucd tg"
    and "e = pos + length (k1 @ s1 @ k2 @ s2 @ tb @ s3 @ k3 @ s4 @ tg)"
    and "mk = [pos + length (k1 @ s1 @ k2 @ s2), pos + length (k1 @ s1 @ k2 @ s2 @ tb),
               pos + length (k1 @ s1 @ k2 @ s2 @ tb @ s3 @ k3 @ s4), e]"
    and "rest = [] \<or> \<not> is_word ucd (hd rest)"
proof -
  note m0 = assms [unfolded DESCRIBE_TABLE_RE_def]
  from m0 obtain k1 r1 where 1: "s = k1 @ r1" "keyword ''describe'' k1"
    and m1: "sre_match ucd ([Max_repeat Category_space] @ literals ''table'' @
      [Max_repeat Category_space] @ [Mark 0, Max_repeat Category_word, Mark 1] @
      [Max_repeat Category_space] @ literals ''lines'' @ [Max_repeat Category_space] @
      [Mark 2, Max_repeat Category_word, Mark 3]) r1 (pos + length k1) [0, 0, 0, 0] = Some (e, mk)"
    by (rule literals_sound)
  from m1 obtain s1 r2 where 2: "r1 = s1 @ r2" "spaces s1"
    and m2: "sre_match ucd (literals ''table'' @
      [Max_repeat Category_space] @ [Mark 0, Max_repeat Category_word, Mark 1] @
      [Max_repeat Category_space] @ literals ''lines'' @ [Max_repeat Category_space] @
      [Mark 2, Max_repeat Category_word, Mark 3]) r2 (pos + length k1 + length s1) [0, 0, 0, 0] =
      Some (e, mk)"
    by (rule space_sound)
  from m2 obtain k2 r3 where 3: "r2 = k2 @ r3" "keyword ''table'' k2"
    and m3: "sre_match ucd ([Max_repeat Category_space] @
      [Mark 0, Max_repeat Category_word, Mark 1] @
      [Max_repeat Category_space] @ literals ''lines'' @ [Max_repeat Category_space] @
      [Mark 2, Max_repeat Category_word, Mark 3]) r3 (pos + length k1 + length s1 + length k2)
      [0, 0, 0, 0] = Some (e, mk)"
    by (rule literals_sound)
  from m3 obtain s2 r4 where 4: "r3 = s2 @ r4" "spaces s2"
    and m4: "sre_match ucd ([Mark 0, Max_repeat Category_word, Mark 1] @
      [Max_repeat Category_space] @ literals ''lines'' @ [Max_repeat Category_space] @
      [Mark 2, Max_repeat Category_word, Mark 3]) r4
      (pos + length k1 + length s1 + length k2 + length s2) [0, 0, 0, 0] = Some (e, mk)"
    by (rule space_sound)
  define p0 where "p0 = pos + length k1 + length s1 + length k2 + length s2"
  from m4 obtain tb r5 where 5: "r4 = tb @ r5" "ident ucd tb"
    and m5: "sre_match ucd ([Max_repeat Category_space] @ literals ''lines'' @
      [Max_repeat Category_space] @ [Mark 2, Max_repeat Category_word, Mark 3]) r5
      (p0 + length tb) ([0, 0, 0, 0][0 := p0, 1 := p0 + length tb]) = Some (e, mk)"
    unfolding p0_def [symmetric] by (rule word_sound)
  from m5 obtain s3 r6 where 6: "r5 = s3 @ r6" "spaces s3"
    and m6: "sre_match ucd (literals ''lines'' @
      [Max_repeat Category_space] @ [Mark 2, Max_repeat Category_word, Mark 3]) r6
      (p0 + length tb + length s3) ([0, 0, 0, 0][0 := p0, 1 := p0 + length tb]) = Some (e, mk)"
    by (rule space_sound)
  from m6 obtain k3 r7 where 7: "r6 = k3 @ r7" "keyword ''lines'' k3"
    and m7: "sre_match ucd ([Max_repeat Category_space] @
      [Mark 2, Max_repeat Category_word, Mark 3]) r7
      (p0 + length tb + length s3 + length k3) ([0, 0, 0, 0][0 := p0, 1 := p0 + length tb]) =
      Some (e, mk)"
    by (rule literals_sound)
  from m7 obtain s4 r8 where 8: "r7 = s4 @ r8" "spaces s4"
    and m8: "sre_match ucd [Mark 2, Max_repeat Category_word, Mark 3] r8
      (p0 + length tb + length s3 + length k3 + length s4)
      ([0, 0, 0, 0][0 := p0, 1 := p0 + length tb]) = Some (e, mk)"
    by (rule space_sound)
  define p2 where "p2 = p0 + length tb + length s3 + length k3 + length s4"
  from m8 obtain tg rest where 9: "r8 = tg @ rest" "ident ucd tg"
    and e: "e = p2 + length tg"
    and mk: "mk = [0, 0, 0, 0][0 := p0, 1 := p0 + length tb, 2 := p2, 3 := p2 + length tg]"
    and rest: "rest = [] \<or> \<not> is_word ucd (hd rest)"
    unfolding p2_def [symmetric] by (rule last_word_sound)
  show thesis
  proof (rule that [of k1 s1 k2 s2 tb s3 k3 s4 tg rest])
    show "s = k1 @ s1 @ k2 @ s2 @ tb @ s3 @ k3 @ s4 @ tg @ rest"
      using 1 2 3 4 5 6 7 8 9 by simp
    show "e = pos + length (k1 @ s1 @ k2 @ s2 @ tb @ s3 @ k3 @ s4 @ tg)"
      using e by (simp add: p2_def p0_def)
    show "mk = [pos + length (k1 @ s1 @ k2 @ s2), pos + length (k1 @ s1 @ k2 @ s2 @ tb),
               pos + length (k1 @ s1 @ k2 @ s2 @ tb @ s3 @ k3 @ s4), e]"
      using mk e by (simp add: p2_def p0_def)
  qed (fact 1 2 3 4 5 6 7 8 9 rest)+
qed

lemma pattern_complete:
  assumes "occurrence ucd w tb tg"
  shows "sre_match ucd DESCRIBE_TABLE_RE (w @ rest) pos mk \<noteq> None"
proof -
  from assms obtain k1 s1 k2 s2 s3 k3 s4 where
    w: "w = k1 @ s1 @ k2 @ s2 @ tb @ s3 @ k3 @ s4 @ tg"
    and k1: "keyword ''describe'' k1" and s1: "spaces s1" and k2: "keyword ''table'' k2"
    and s2: "spaces s2" and tb: "ident ucd tb" and s3: "spaces s3"
    and k3: "keyword ''lines'' k3" and s4: "spaces s4" and tg: "ident ucd tg"
    unfolding occurrence_def by blast
  have 9: "sre_match ucd [Mark 2, Max_repeat Category_word, Mark 3] (tg @ rest) p m \<noteq> None"
    for p m
    using tg by (rule last_word_complete)
  have 8: "sre_match ucd ([Max_repeat Category_space] @
      [Mark 2, Max_repeat Category_word, Mark 3]) (s4 @ tg @ rest) p m \<noteq> None" for p m
    using s4 9 by (rule space_complete)
  have 7: "sre_match ucd (literals ''lines'' @ [Max_repeat Category_space] @
      [Mark 2, Max_repeat Category_word, Mark 3]) (k3 @ s4 @ tg @ rest) p m \<noteq> None" for p m
    using 8 by (simp only: literals_complete [OF k3] not_False_eq_True)
  have 6: "sre_match ucd ([Max_repeat Category_space] @ literals ''lines'' @
      [Max_repeat Category_space] @ [Mark 2, Max_repeat Category_word, Mark 3])
      (s3 @ k3 @ s4 @ tg @ rest) p m \<noteq> None" for p m
    using s3 7 by (rule space_complete)
  have 5: "sre_match ucd ([Mark 0, Max_repeat Category_word, Mark 1] @
      [Max_repeat Category_space] @ literals ''lines'' @
      [Max_repeat Category_space] @ [Mark 2, Max_repeat Category_word, Mark 3])
      (tb @ s3 @ k3 @ s4 @ tg @ rest) p m \<noteq> None" for p m
    using tb 6 by (rule word_complete)
  have 4: "sre_match ucd ([Max_repeat Category_space] @
      [Mark 0, Max_repeat Category_word, Mark 1] @
      [Max_repeat Category_space] @ literals ''lines'' @
      [Max_repeat Category_space] @ [Mark 2, Max_repeat Category_word, Mark 3])
      (s2 @ tb @ s3 @ k3 @ s4 @ tg @ rest) p m \<noteq> None" for p m
    using s2 5 by (rule space_complete)
  have 3: "sre_match ucd (literals ''table'' @ [Max_repeat Category_space] @
      [Mark 0, Max_repeat Category_word, Mark 1] @
      [Max_repeat Category_space] @ literals ''lines'' @
      [Max_repeat Category_space] @ [Mark 2, Max_repeat Category_word, Mark 3])
      (k2 @ s2 @ tb @ s3 @ k3 @ s4 @ tg @ rest) p m \<noteq> None" for p m
    using 4 by (simp only: literals_complete [OF k2] not_False_eq_True)
  have 2: "sre_match ucd ([Max_repeat Category_space] @ literals ''table'' @
      [Max_repeat Category_space] @ [Mark 0, Max_repeat Category_word, Mark 1] @
      [Max_repeat Category_space] @ literals ''lines'' @
      [Max_repeat Category_space] @ [Mark 2, Max_repeat Category_word, Mark 3])
      (s1 @ k2 @ s2 @ tb @ s3 @ k3 @ s4 @ tg @ rest) p m \<noteq> None" for p m
    using s1 3 by (rule space_complete)
  have "sre_match ucd DESCRIBE_TABLE_RE
      (k1 @ s1 @ k2 @ s2 @ tb @ s3 @ k3 @ s4 @ tg @ rest) pos mk \<noteq> None"
    unfolding DESCRIBE_TABLE_RE_def using 2 by (simp only: literals_complete [OF k1] not_False_eq_True)
  then show ?thesis
    by (simp add: w)
qed

lemma finditer_from_end: "length s < pos \<Longrightarrow> finditer_from ucd re s pos = []"
  by (simp add: finditer_from.simps)

lemma finditer_from_None:
  "\<not> length s < pos \<Longrightarrow> sre_match ucd re (drop pos s) pos [0, 0, 0, 0] = None \<Longrightarrow>
     finditer_from ucd re s pos = finditer_from ucd re s (Suc pos)"
  by (simp add: finditer_from.simps [of ucd re s pos])

lemma finditer_from_Some:
  "\<not> length s < pos \<Longrightarrow> sre_match ucd re (drop pos s) pos [0, 0, 0, 0] = Some (e, mk) \<Longrightarrow>
     finditer_from ucd re s pos =
       \<lparr>m_string = s, m_start = pos, m_end = e, m_marks = mk\<rparr> #
       finditer_from ucd re s (if pos < e then e else Suc pos)"
  by (simp add: finditer_from.simps [of ucd re s pos])

lemma finditer_from_match:
  "m \<in> set (finditer_from ucd re s pos) \<Longrightarrow>
     m_string m = s \<and>
     sre_match ucd re (drop (m_start m) s) (m_start m) [0, 0, 0, 0] = Some (m_end m, m_marks m)"
proof (induction ucd re s pos rule: finditer_from.induct)
  case (1 ucd re s pos)
  show ?case
  proof (cases "length s < pos")
    case True
    with "1.prems" show ?thesis
      by (simp add: finditer_from_end)
  next
    case False
    show ?thesis
    proof (cases "sre_match ucd re (drop pos s) pos [0, 0, 0, 0]")
      case None
      with False "1.prems" have "m \<in> set (finditer_from ucd re s (Suc pos))"
        by (simp add: finditer_from_None)
      with "1.IH"(1) [OF False None] show ?thesis
        by simp
    next
      case (Some r)
      obtain e mk where r: "r = (e, mk)"
        by (cases r)
      from False Some r "1.prems" consider
        "m = \<lparr>m_string = s, m_start = pos, m_end = e, m_marks = mk\<rparr>"
        | "m \<in> set (finditer_from ucd re s (if pos < e then e else Suc pos))"
        by (auto simp: finditer_from_Some)
      then show ?thesis
      proof cases
        case 1
        with Some r show ?thesis by simp
      next
        case 2
        from "1.IH"(2) [OF False Some r [symmetric] 2] show ?thesis .
      qed
    qed
  qed
qed

lemma finditer_from_sorted:
  "sorted_wrt (\<lambda>a b. m_end a \<le> m_start b) (finditer_from ucd re s pos)"
proof (induction ucd re s pos rule: finditer_from.induct)
  case (1 ucd re s pos)
  show ?case
  proof (cases "length s < pos")
    case True
    then show ?thesis
      by (simp add: finditer_from_end)
  next
    case False
    show ?thesis
    proof (cases "sre_match ucd re (drop pos s) pos [0, 0, 0, 0]")
      case None
      with "1.IH"(1) [OF False None] False show ?thesis
        by (simp add: finditer_from_None)
    next
      case (Some r)
      obtain e mk where r: "r = (e, mk)"
        by (cases r)
      have "e \<le> m_start b"
        if "b \<in> set (finditer_from ucd re s (if pos < e then e else Suc pos))" for b
        using finditer_from_start [OF that] by (auto split: if_splits)
      with "1.IH"(2) [OF False Some r [symmetric]] False Some r show ?thesis
        by (simp add: finditer_from_Some)
    qed
  qed
qed

lemma finditer_from_covers:
  "pos \<le> p \<Longrightarrow> p \<le> length s \<Longrightarrow> sre_match ucd re (drop p s) p [0, 0, 0, 0] \<noteq> None \<Longrightarrow>
     \<exists>m \<in> set (finditer_from ucd re s pos). m_start m \<le> p \<and> (p < m_end m \<or> m_start m = p)"
proof (induction ucd re s pos rule: finditer_from.induct)
  case (1 ucd re s pos)
  from "1.prems" have False: "\<not> length s < pos"
    by simp
  show ?case
  proof (cases "sre_match ucd re (drop pos s) pos [0, 0, 0, 0]")
    case None
    with "1.prems" have "pos \<noteq> p"
      by auto
    with "1.prems" have "Suc pos \<le> p"
      by simp
    from "1.IH"(1) [OF False None this "1.prems"(2,3)] False None show ?thesis
      by (simp add: finditer_from_None)
  next
    case (Some r)
    obtain e mk where r: "r = (e, mk)"
      by (cases r)
    note unfold = finditer_from_Some [OF False Some [unfolded r]]
    show ?thesis
    proof (cases "p < e \<or> pos = p")
      case True
      with "1.prems"(1) show ?thesis
        unfolding unfold by auto
    next
      case no: False
      with "1.prems"(1) have "(if pos < e then e else Suc pos) \<le> p"
        by auto
      from "1.IH"(2) [OF False Some r [symmetric] this "1.prems"(2,3)] show ?thesis
        unfolding unfold by auto
    qed
  qed
qed

lemma substring_mid:
  "drop a s = x @ y @ z \<Longrightarrow> substring s (a + length x) (a + length (x @ y)) = y"
proof -
  assume d: "drop a s = x @ y @ z"
  have "drop (a + length x) s = drop (length x) (drop a s)"
    by (simp add: add.commute)
  with d show ?thesis
    by (simp add: substring_def)
qed

lemma substring_split:
  "p \<le> e \<Longrightarrow> e \<le> length s \<Longrightarrow> drop p s = substring s p e @ drop e s"
proof -
  assume "p \<le> e" "e \<le> length s"
  then have "drop e s = drop (e - p) (drop p s)"
    by simp
  then show ?thesis
    by (simp add: substring_def del: drop_drop)
qed

lemma match_is_occurrence:
  assumes "m \<in> set (finditer ucd DESCRIBE_TABLE_RE s)"
  shows "m_string m = s \<and> m_start m < m_end m \<and> m_end m \<le> length s \<and>
         occurrence ucd (group0 m) (group_table m) (group_target m) \<and>
         (m_end m < length s \<longrightarrow> \<not> is_word ucd (s ! m_end m))"
proof -
  from assms have mem: "m \<in> set (finditer_from ucd DESCRIBE_TABLE_RE s 0)"
    by (simp add: finditer_def)
  from finditer_from_match [OF mem] have str: "m_string m = s"
    and m: "sre_match ucd DESCRIBE_TABLE_RE (drop (m_start m) s) (m_start m) [0, 0, 0, 0] =
      Some (m_end m, m_marks m)"
    by simp_all
  from finditer_from_start [OF mem] have start: "m_start m \<le> length s"
    by simp
  from m obtain k1 s1 k2 s2 tb s3 k3 s4 tg rest where
    d: "drop (m_start m) s = k1 @ s1 @ k2 @ s2 @ tb @ s3 @ k3 @ s4 @ tg @ rest"
    and parts: "keyword ''describe'' k1" "spaces s1" "keyword ''table'' k2" "spaces s2"
      "ident ucd tb" "spaces s3" "keyword ''lines'' k3" "spaces s4" "ident ucd tg"
    and e: "m_end m = m_start m + length (k1 @ s1 @ k2 @ s2 @ tb @ s3 @ k3 @ s4 @ tg)"
    and mk: "m_marks m = [m_start m + length (k1 @ s1 @ k2 @ s2),
        m_start m + length (k1 @ s1 @ k2 @ s2 @ tb),
        m_start m + length (k1 @ s1 @ k2 @ s2 @ tb @ s3 @ k3 @ s4), m_end m]"
    and rest: "rest = [] \<or> \<not> is_word ucd (hd rest)"
    by (rule pattern_sound)
  let ?w = "k1 @ s1 @ k2 @ s2 @ tb @ s3 @ k3 @ s4 @ tg"
  have dw: "drop (m_start m) s = ?w @ rest"
    using d by simp
  from parts(2) have "s1 \<noteq> []"
    by (simp add: spaces_def)
  with e have lt: "m_start m < m_end m"
    by simp
  have "length (drop (m_start m) s) = length ?w + length rest"
    unfolding dw by simp
  with start e have le: "m_end m \<le> length s" and len_rest: "length rest = length s - m_end m"
    by simp_all
  have g0: "group0 m = ?w"
    using substring_mid [of "m_start m" s "[]" ?w rest] dw e str
    by (simp add: group0_def)
  have "drop (m_start m) s = (k1 @ s1 @ k2 @ s2) @ tb @ (s3 @ k3 @ s4 @ tg @ rest)"
    using d by simp
  from substring_mid [OF this] have gtb: "group_table m = tb"
    using mk str by (simp add: group_table_def)
  have "drop (m_start m) s = (k1 @ s1 @ k2 @ s2 @ tb @ s3 @ k3 @ s4) @ tg @ rest"
    using d by simp
  from substring_mid [OF this] have gtg: "group_target m = tg"
    using mk str e by (simp add: group_target_def)
  have occ: "occurrence ucd (group0 m) (group_table m) (group_target m)"
    unfolding g0 gtb gtg occurrence_def using parts by blast
  have "\<not> is_word ucd (s ! m_end m)" if "m_end m < length s"
  proof -
    from that len_rest have ne: "rest \<noteq> []"
      by auto
    have "s ! m_end m = drop (m_start m) s ! length ?w"
      using e start by simp
    also have "\<dots> = hd rest"
      unfolding dw using ne by (simp add: nth_append hd_conv_nth)
    finally show ?thesis
      using rest ne by simp
  qed
  with str lt le occ show ?thesis
    by blast
qed

lemma occurrence_is_covered:
  assumes "p \<le> e" and "e \<le> length s" and "occurrence ucd (substring s p e) table target"
  shows "\<exists>m \<in> set (finditer ucd DESCRIBE_TABLE_RE s). m_start m \<le> p \<and> p < m_end m"
proof -
  from assms(1,2) have "drop p s = substring s p e @ drop e s"
    by (rule substring_split)
  with pattern_complete [OF assms(3), of "drop e s" p "[0, 0, 0, 0]"]
  have "sre_match ucd DESCRIBE_TABLE_RE (drop p s) p [0, 0, 0, 0] \<noteq> None"
    by simp
  from finditer_from_covers [OF _ _ this, of 0] assms(1,2)
  obtain m where m: "m \<in> set (finditer ucd DESCRIBE_TABLE_RE s)"
    and c: "m_start m \<le> p" "p < m_end m \<or> m_start m = p"
    unfolding finditer_def by auto
  from match_is_occurrence [OF m] have "m_start m < m_end m"
    by simp
  with m c show ?thesis
    by auto
qed

subsection \<open>The matches are the occurrences of the construct\<close>

text \<open>
  Claim C1. For every text, the matches that \<open>finditer\<close> returns for the pattern are the
  occurrences of the construct, scanned from left to right without overlap:
  every match is an occurrence of the construct within the text, with its two groups as
  table and target and the target taken to the end of its word; the matches are in
  ascending order and each ends before the next one starts; and every occurrence
  anywhere in the text begins inside a match (it is that match, or it overlaps an
  earlier one and is skipped). The unit scanner builds one finding for each match, in
  the order of the matches, so there are exactly as many findings as matches.
\<close>

theorem finditer_occurrences:
  "(\<forall>m \<in> set (finditer ucd DESCRIBE_TABLE_RE s).
      m_string m = s \<and> m_start m < m_end m \<and> m_end m \<le> length s \<and>
      occurrence ucd (group0 m) (group_table m) (group_target m) \<and>
      (m_end m < length s \<longrightarrow> \<not> is_word ucd (s ! m_end m))) \<and>
   sorted_wrt (\<lambda>a b. m_end a \<le> m_start b) (finditer ucd DESCRIBE_TABLE_RE s) \<and>
   (\<forall>p e table target.
      p \<le> e \<and> e \<le> length s \<and> occurrence ucd (substring s p e) table target \<longrightarrow>
      (\<exists>m \<in> set (finditer ucd DESCRIBE_TABLE_RE s). m_start m \<le> p \<and> p < m_end m)) \<and>
   r_describe_findings (scan_unit ucd unit) =
     map (make_finding unit (code_or_empty unit))
       (finditer ucd DESCRIBE_TABLE_RE (code_or_empty unit)) \<and>
   length (r_describe_findings (scan_unit ucd unit)) =
     length (finditer ucd DESCRIBE_TABLE_RE (code_or_empty unit))"
proof (intro conjI ballI allI impI)
  fix m
  assume "m \<in> set (finditer ucd DESCRIBE_TABLE_RE s)"
  from match_is_occurrence [OF this]
  show "m_string m = s" and "m_start m < m_end m" and "m_end m \<le> length s"
    and "occurrence ucd (group0 m) (group_table m) (group_target m)"
    by simp_all
  assume "m_end m < length s"
  with match_is_occurrence [OF \<open>m \<in> set (finditer ucd DESCRIBE_TABLE_RE s)\<close>]
  show "\<not> is_word ucd (s ! m_end m)"
    by simp
next
  show "sorted_wrt (\<lambda>a b. m_end a \<le> m_start b) (finditer ucd DESCRIBE_TABLE_RE s)"
    unfolding finditer_def by (rule finditer_from_sorted)
next
  fix p e table target
  assume "p \<le> e \<and> e \<le> length s \<and> occurrence ucd (substring s p e) table target"
  then show "\<exists>m \<in> set (finditer ucd DESCRIBE_TABLE_RE s). m_start m \<le> p \<and> p < m_end m"
    using occurrence_is_covered [of p e s ucd table target] by simp
next
  show "r_describe_findings (scan_unit ucd unit) =
     map (make_finding unit (code_or_empty unit))
       (finditer ucd DESCRIBE_TABLE_RE (code_or_empty unit))"
    by (rule scan_unit_findings)
  then show "length (r_describe_findings (scan_unit ucd unit)) =
     length (finditer ucd DESCRIBE_TABLE_RE (code_or_empty unit))"
    by simp
qed

lemma finditer_two_statements:
  "finditer ucd DESCRIBE_TABLE_RE two_statements =
    [\<lparr>m_string = two_statements, m_start = 0, m_end = 24, m_marks = [15, 16, 23, 24]\<rparr>,
     \<lparr>m_string = two_statements, m_start = 26, m_end = 51, m_marks = [42, 43, 50, 51]\<rparr>]"
  by (simp add: eval_defs two_statements_def)

lemma occurrence_two_statements:
  "occurrence ucd (substring two_statements 26 51) (py ''c'') (py ''d'')"
proof -
  have "substring two_statements 26 51 =
      py ''describe'' @ py ''  '' @ py ''table'' @ py '' '' @ py ''c'' @ py '' '' @
      py ''lines'' @ py '' '' @ py ''d''"
    by (simp add: two_statements_def substring_def py_def)
  moreover have "keyword ''describe'' (py ''describe'')" "keyword ''table'' (py ''table'')"
    "keyword ''lines'' (py ''lines'')"
    by (simp_all add: keyword_def py_def literal_ignore_def)
  moreover have "spaces (py ''  '')" "spaces (py '' '')"
    by (simp_all add: spaces_def py_def is_space_def)
  moreover have "ident ucd (py ''c'')" "ident ucd (py ''d'')"
    by (simp_all add: ident_def py_def is_word_def is_alnum_def)
  ultimately show ?thesis
    unfolding occurrence_def by blast
qed

theorem finditer_occurrences_witness:
  "\<forall>ucd. map (\<lambda>m. (m_start m, m_end m, group_table m, group_target m))
       (finditer ucd DESCRIBE_TABLE_RE two_statements) =
       [(0, 24, py ''A'', py ''B''), (26, 51, py ''c'', py ''d'')] \<and>
     occurrence ucd (substring two_statements 26 51) (py ''c'') (py ''d'') \<and>
     (\<exists>m \<in> set (finditer ucd DESCRIBE_TABLE_RE two_statements). m_start m \<le> 26 \<and> 26 < m_end m) \<and>
     map f_line (r_describe_findings (scan_unit ucd (example_unit ''U1'' two_statements))) = [1, 1]"
proof
  fix ucd
  have len: "(26::nat) \<le> 51 \<and> 51 \<le> length two_statements"
    by (simp add: two_statements_def py_def)
  from finditer_occurrences [of ucd two_statements "example_unit ''U1'' two_statements"]
    len occurrence_two_statements [of ucd]
  have "\<exists>m \<in> set (finditer ucd DESCRIBE_TABLE_RE two_statements). m_start m \<le> 26 \<and> 26 < m_end m"
    and "r_describe_findings (scan_unit ucd (example_unit ''U1'' two_statements)) =
      map (make_finding (example_unit ''U1'' two_statements) two_statements)
        (finditer ucd DESCRIBE_TABLE_RE two_statements)"
    by (blast, simp)
  moreover have "map (\<lambda>m. (m_start m, m_end m, group_table m, group_target m))
       (finditer ucd DESCRIBE_TABLE_RE two_statements) =
       [(0, 24, py ''A'', py ''B''), (26, 51, py ''c'', py ''d'')]"
    unfolding finditer_two_statements
    by (simp add: group_table_def group_target_def substring_def two_statements_def py_def)
  moreover have "map f_line (map (make_finding (example_unit ''U1'' two_statements) two_statements)
        (finditer ucd DESCRIBE_TABLE_RE two_statements)) = [1, 1]"
    unfolding finditer_two_statements
    by (simp add: make_finding_def Let_def line_of_offset_def py_count_def py_slice_def
        slice_index_def two_statements_def py_def)
  ultimately show "map (\<lambda>m. (m_start m, m_end m, group_table m, group_target m))
       (finditer ucd DESCRIBE_TABLE_RE two_statements) =
       [(0, 24, py ''A'', py ''B''), (26, 51, py ''c'', py ''d'')] \<and>
     occurrence ucd (substring two_statements 26 51) (py ''c'') (py ''d'') \<and>
     (\<exists>m \<in> set (finditer ucd DESCRIBE_TABLE_RE two_statements). m_start m \<le> 26 \<and> 26 < m_end m) \<and>
     map f_line (r_describe_findings (scan_unit ucd (example_unit ''U1'' two_statements))) = [1, 1]"
    using occurrence_two_statements [of ucd] by simp
qed

end
